theory Spec2Isabelle
  imports Complex_Main "HOL-Library.Log_Nat"
begin

unbundle bit_operations_syntax

section \<open>Python values used by both generators\<close>

text \<open>
  Both scripts are Python. Integers are unbounded (\<open>int\<close>), lists are HOL lists, and
  every exception the modelled code can raise is a value of \<open>py_error\<close>, returned
  as the left summand of a sum type.
\<close>

datatype py_error = ValueError | IndexError | ZeroDivisionError

text \<open>
  List subscription \<open>xs[i]\<close>: a negative index counts from the end of the list and an
  index outside \<open>-len(xs) .. len(xs) - 1\<close> raises \<open>IndexError\<close>.
\<close>

definition py_getitem :: "'a list \<Rightarrow> int \<Rightarrow> py_error + 'a" where
  "py_getitem xs i =
     (if 0 \<le> i \<and> i < int (length xs) then Inr (xs ! nat i)
      else if i < 0 \<and> - int (length xs) \<le> i then Inr (xs ! nat (int (length xs) + i))
      else Inl IndexError)"

text \<open>The builtin \<open>sum\<close>: a left fold of \<open>+\<close> starting from \<open>0\<close>.\<close>

definition py_sum :: "'a::monoid_add list \<Rightarrow> 'a" where
  "py_sum xs = foldl (+) 0 xs"

section \<open>Balance generator: \<open>scripts/generate_balance_test_data.py\<close>\<close>

subsection \<open>The mock hash\<close>

definition PRIME :: int where
  "PRIME = 21888242871839275222246405745257275088548364400416034343698204186575808495617"

definition poseidon_mock :: "int list \<Rightarrow> int" where
  "poseidon_mock inputs = (py_sum inputs * 1234567 + 987654321) mod PRIME"

definition poseidon_hash_single :: "int \<Rightarrow> int" where
  "poseidon_hash_single v = poseidon_mock [v]"

definition poseidon_hash_pair :: "int \<Rightarrow> int \<Rightarrow> int" where
  "poseidon_hash_pair left right = poseidon_mock [left, right]"

subsection \<open>Class \<open>MerkleTree\<close>\<close>

text \<open>The attributes that \<open>__init__\<close> sets, under the prefix \<open>mt_\<close>.\<close>

record merkle_tree =
  mt_leaves :: "int list"
  mt_n :: nat
  mt_depth :: nat
  mt_padded_n :: nat
  mt_leaf_hashes :: "int list"
  mt_tree :: "int list list"
  mt_root :: int

text \<open>
  \<^verbatim>\<open>while temp > 1: temp = (temp + 1) // 2; self.depth += 1\<close>
\<close>

function depth_loop :: "nat \<Rightarrow> nat \<Rightarrow> nat" where
  "depth_loop temp depth =
     (if temp > 1 then depth_loop ((temp + 1) div 2) (depth + 1) else depth)"
  by pat_completeness auto
termination
  by (relation "measure (\<lambda>(temp, depth). temp)") auto

text \<open>
  \<^verbatim>\<open>while len(self.leaf_hashes) < self.padded_n:
      self.leaf_hashes.append(poseidon_hash_single(0))\<close>
\<close>

function pad_loop :: "int list \<Rightarrow> nat \<Rightarrow> int list" where
  "pad_loop hashes padded =
     (if length hashes < padded then pad_loop (hashes @ [poseidon_hash_single 0]) padded
      else hashes)"
  by pat_completeness auto
termination
  by (relation "measure (\<lambda>(hashes, padded). padded - length hashes)") auto

text \<open>
  The \<open>for\<close> loop of \<open>_build_tree\<close> steps through the level two entries at a time.
  An entry at \<open>i\<close> with \<open>i + 1 < len(current_level)\<close> is paired with its right
  neighbour (first equation); a last entry without a neighbour is paired with itself
  (second equation, the boundary branch).
\<close>

fun next_level :: "int list \<Rightarrow> int list" where
  "next_level (left # right # rest) = poseidon_hash_pair left right # next_level rest"
| "next_level [left] = [poseidon_hash_pair left left]"
| "next_level [] = []"

function build_loop :: "int list list \<Rightarrow> int list \<Rightarrow> int list list" where
  "build_loop tree current_level =
     (if length current_level > 1
      then build_loop (tree @ [next_level current_level]) (next_level current_level)
      else tree)"
  by pat_completeness auto
termination
proof (relation "measure (\<lambda>(tree, current_level). length current_level)")
  fix tree :: "int list list" and current_level :: "int list"
  assume "1 < length current_level"
  moreover have "length (next_level xs) = (length xs + 1) div 2" for xs
    by (induction xs rule: next_level.induct) auto
  ultimately show "((tree @ [next_level current_level], next_level current_level),
                    (tree, current_level))
                   \<in> measure (\<lambda>(tree, current_level). length current_level)"
    by simp
qed simp

definition build_tree :: "int list \<Rightarrow> int list list" where
  "build_tree lvs = build_loop [lvs] lvs"

text \<open>
  \<open>__init__\<close>. The last statement reads \<open>self.tree[-1][0]\<close>; both subscriptions can
  raise, so the constructor returns a sum.
\<close>

definition MerkleTree :: "int list \<Rightarrow> py_error + merkle_tree" where
  "MerkleTree lvs =
     (let n = length lvs;
          depth = depth_loop n 0;
          padded = 2 ^ depth;
          hashes = pad_loop (map poseidon_hash_single lvs) padded;
          tree = build_tree hashes
      in case py_getitem tree (- 1) of
           Inl e \<Rightarrow> Inl e
         | Inr top_level \<Rightarrow>
             (case py_getitem top_level 0 of
                Inl e \<Rightarrow> Inl e
              | Inr r \<Rightarrow>
                  Inr \<lparr>mt_leaves = lvs, mt_n = n, mt_depth = depth, mt_padded_n = padded,
                       mt_leaf_hashes = hashes, mt_tree = tree, mt_root = r\<rparr>))"

text \<open>
  The loop of \<open>get_proof\<close> over \<open>level in range(self.depth)\<close>. The index is a Python
  integer: \<open>%\<close> and \<open>//\<close> round towards minus infinity, as \<open>mod\<close> and \<open>div\<close> on
  \<open>int\<close> do, and the subscriptions go through \<open>py_getitem\<close>.
\<close>

function proof_loop ::
  "int list list \<Rightarrow> nat \<Rightarrow> nat \<Rightarrow> int \<Rightarrow> int list \<Rightarrow> int list \<Rightarrow> py_error + (int list \<times> int list)"
where
  "proof_loop tree depth level current_index siblings path_indices =
     (if level < depth then
        (let is_right = current_index mod 2;
             sibling_index = (if is_right \<noteq> 0 then current_index - 1 else current_index + 1)
         in case py_getitem tree (int level) of
              Inl e \<Rightarrow> Inl e
            | Inr lvl \<Rightarrow>
                (case (if sibling_index < int (length lvl) then py_getitem lvl sibling_index
                       else py_getitem lvl current_index) of
                   Inl e \<Rightarrow> Inl e
                 | Inr sibling \<Rightarrow>
                     proof_loop tree depth (level + 1) (current_index div 2)
                       (siblings @ [sibling]) (path_indices @ [is_right])))
      else Inr (siblings, path_indices))"
  by pat_completeness auto
termination
  by (relation "measure (\<lambda>(tree, depth, level, current_index, siblings, path_indices). depth - level)")
     auto

definition get_proof :: "merkle_tree \<Rightarrow> int \<Rightarrow> py_error + (int list \<times> int list)" where
  "get_proof t index =
     (if index \<ge> int (mt_n t) then Inl ValueError
      else proof_loop (mt_tree t) (mt_depth t) 0 index [] [])"

subsection \<open>\<open>verify_merkle_proof\<close>\<close>

fun verify_loop :: "int \<Rightarrow> (int \<times> int) list \<Rightarrow> int" where
  "verify_loop current_hash [] = current_hash"
| "verify_loop current_hash ((sibling, is_right) # rest) =
     verify_loop (if is_right \<noteq> 0 then poseidon_hash_pair sibling current_hash
                  else poseidon_hash_pair current_hash sibling) rest"

definition verify_merkle_proof :: "int \<Rightarrow> int list \<Rightarrow> int list \<Rightarrow> int \<Rightarrow> bool" where
  "verify_merkle_proof leaf_value siblings path_indices root_hash =
     (verify_loop (poseidon_hash_single leaf_value) (zip siblings path_indices) = root_hash)"

section \<open>Training generator: \<open>scripts/generate_training_test_data.py\<close>\<close>

subsection \<open>Decimal strings\<close>

text \<open>
  \<open>str(i)\<close> for an integer \<open>i\<close>: its decimal digits, after a minus sign when it is
  negative.
\<close>

definition digit_char :: "nat \<Rightarrow> char" where
  "digit_char d = char_of (48 + d)"

function str_nat :: "nat \<Rightarrow> string" where
  "str_nat k = (if k < 10 then [digit_char k] else str_nat (k div 10) @ [digit_char (k mod 10)])"
  by pat_completeness auto
termination
  by (relation "measure id") auto

definition py_str :: "int \<Rightarrow> string" where
  "py_str i = (if i < 0 then CHR ''-'' # str_nat (nat (- i)) else str_nat (nat i))"




subsection \<open>Fixed-point codec\<close>





subsection \<open>The placeholder hash\<close>

text \<open>
  \<open>poseidon_hash(*inputs)\<close> feeds \<open>str(inp).encode()\<close> of every input to one SHA-256
  object and reduces the digest modulo \<open>2**251\<close>. SHA-256 comes from \<open>hashlib\<close>, not from
  this repository: the parameter \<open>sha256\<close> stands for the digest, read as an integer, of
  the concatenated input.
\<close>

definition poseidon_hash :: "(string \<Rightarrow> int) \<Rightarrow> int list \<Rightarrow> int" where
  "poseidon_hash sha256 inputs = sha256 (concat (map py_str inputs)) mod 2 ^ 251"

subsection \<open>\<open>build_merkle_tree\<close>\<close>

text \<open>
  \<^verbatim>\<open>while size < n: size *= 2; depth += 1\<close>
  The loop does not end from \<open>size = 0\<close>, so its model returns an option; the
  generator starts it at \<open>size = 1\<close> (\<open>sz\<close> below).
\<close>

partial_function (option) size_loop :: "nat \<Rightarrow> nat \<Rightarrow> nat \<Rightarrow> (nat \<times> nat) option" where
  "size_loop n sz depth =
     (if sz < n then size_loop n (sz * 2) (depth + 1) else Some (sz, depth))"

declare size_loop.simps [code]

text \<open>
  The pairing loop: a last entry without a right neighbour is paired with the value
  \<open>0\<close> (second equation, the boundary branch).
\<close>

fun tr_next_level :: "(string \<Rightarrow> int) \<Rightarrow> int list \<Rightarrow> int list" where
  "tr_next_level sha256 (left # right # rest) =
     poseidon_hash sha256 [left, right] # tr_next_level sha256 rest"
| "tr_next_level sha256 [left] = [poseidon_hash sha256 [left, 0]]"
| "tr_next_level sha256 [] = []"

function tr_build_loop :: "(string \<Rightarrow> int) \<Rightarrow> int list list \<Rightarrow> int list \<Rightarrow> int list list" where
  "tr_build_loop sha256 tree current_level =
     (if length current_level > 1
      then tr_build_loop sha256 (tree @ [tr_next_level sha256 current_level])
             (tr_next_level sha256 current_level)
      else tree)"
  by pat_completeness auto
termination
proof (relation "measure (\<lambda>(sha256, tree, current_level). length current_level)")
  fix sha256 :: "string \<Rightarrow> int" and tree :: "int list list" and current_level :: "int list"
  assume "1 < length current_level"
  moreover have "length (tr_next_level sha256 xs) = (length xs + 1) div 2" for xs
    by (induction sha256 xs rule: tr_next_level.induct) auto
  ultimately show "((sha256, tree @ [tr_next_level sha256 current_level],
                     tr_next_level sha256 current_level),
                    (sha256, tree, current_level))
                   \<in> measure (\<lambda>(sha256, tree, current_level). length current_level)"
    by simp
qed simp

text \<open>The inner loop of the proof generation, over \<open>level in range(depth)\<close>.\<close>

function tr_proof_loop ::
  "int list list \<Rightarrow> nat \<Rightarrow> nat \<Rightarrow> nat \<Rightarrow> int list \<Rightarrow> int list \<Rightarrow> py_error + (int list \<times> int list)"
where
  "tr_proof_loop tree depth level current_idx siblings indices =
     (if level < depth then
        (let sibling_idx = current_idx XOR 1
         in case py_getitem tree (int level) of
              Inl e \<Rightarrow> Inl e
            | Inr lvl \<Rightarrow>
                (let sibling = (if sibling_idx < length lvl then lvl ! sibling_idx else 0)
                 in tr_proof_loop tree depth (level + 1) (current_idx div 2)
                      (siblings @ [sibling]) (indices @ [int (current_idx mod 2)])))
      else Inr (siblings, indices))"
  by pat_completeness auto
termination
  by (relation "measure (\<lambda>(tree, depth, level, current_idx, siblings, indices). depth - level)")
     auto

text \<open>The outer loop, over \<open>leaf_idx in range(n)\<close>.\<close>

fun tr_all_proofs ::
  "int list list \<Rightarrow> nat \<Rightarrow> nat list \<Rightarrow> int list list \<Rightarrow> int list list
     \<Rightarrow> py_error + (int list list \<times> int list list)"
where
  "tr_all_proofs tree depth [] siblings_list indices_list = Inr (siblings_list, indices_list)"
| "tr_all_proofs tree depth (leaf_idx # later) siblings_list indices_list =
     (case tr_proof_loop tree depth 0 leaf_idx [] [] of
        Inl e \<Rightarrow> Inl e
      | Inr (siblings, indices) \<Rightarrow>
          tr_all_proofs tree depth later (siblings_list @ [siblings]) (indices_list @ [indices]))"

text \<open>
  The local variable \<open>tree\<close> of \<open>build_merkle_tree\<close> once the tree is built (lines
  60 to 83), with the \<open>depth\<close> the first loop counted.
\<close>

definition tr_tree :: "(string \<Rightarrow> int) \<Rightarrow> int list \<Rightarrow> (int list list \<times> nat) option" where
  "tr_tree sha256 lvs =
     (case size_loop (length lvs) 1 0 of
        None \<Rightarrow> None
      | Some (sz, depth) \<Rightarrow>
          (let padded_leaves = lvs @ replicate (sz - length lvs) 0
           in Some (tr_build_loop sha256 [padded_leaves] padded_leaves, depth)))"

text \<open>
  \<open>build_merkle_tree\<close>: \<open>None\<close> when the first loop does not end, \<open>Some\<close> of an
  exception or of \<open>(root, siblings_list, indices_list)\<close> otherwise.
\<close>

definition build_merkle_tree ::
  "(string \<Rightarrow> int) \<Rightarrow> int list \<Rightarrow> (py_error + (int \<times> int list list \<times> int list list)) option"
where
  "build_merkle_tree sha256 lvs =
     (case tr_tree sha256 lvs of
        None \<Rightarrow> None
      | Some (tree, depth) \<Rightarrow>
          Some (case py_getitem tree (- 1) of
                  Inl e \<Rightarrow> Inl e
                | Inr top_level \<Rightarrow>
                    (case py_getitem top_level 0 of
                       Inl e \<Rightarrow> Inl e
                     | Inr r \<Rightarrow>
                         (case tr_all_proofs tree depth [0..<length lvs] [] [] of
                            Inl e \<Rightarrow> Inl e
                          | Inr (siblings_list, indices_list) \<Rightarrow>
                              Inr (r, siblings_list, indices_list)))))"

subsection \<open>Gradient pipeline\<close>

text \<open>
  \<open>compute_gradient\<close>: \<open>zip\<close> stops at the shorter of its two arguments; no statement
  of the function raises.
\<close>

definition compute_gradient :: "real list \<Rightarrow> real list \<Rightarrow> int \<Rightarrow> real list" where
  "compute_gradient weights features label =
     (let prediction = py_sum (map (\<lambda>(w, x). w * x) (zip weights features));
          error = real_of_int label - prediction
      in map (\<lambda>x. - error * x) features)"

text \<open>\<open>sum(v * v for v in vector) ** 0.5\<close>\<close>

definition compute_l2_norm :: "real list \<Rightarrow> real" where
  "compute_l2_norm vector = py_sum (map (\<lambda>v. v * v) vector) powr (1 / 2)"


section \<open>Specification devices\<close>

text \<open>
  The levels a tree of depth \<open>d\<close> has above a level \<open>cur\<close>, and the proof steps
  (sibling, direction bit) that lead from entry \<open>j\<close> of \<open>cur\<close> to the root. They are
  used to state what the loops above compute.
\<close>

fun levels :: "nat \<Rightarrow> int list \<Rightarrow> int list list" where
  "levels 0 cur = [cur]"
| "levels (Suc d) cur = cur # levels d (next_level cur)"

fun proof_steps :: "nat \<Rightarrow> int list \<Rightarrow> nat \<Rightarrow> (int \<times> int) list" where
  "proof_steps 0 cur j = []"
| "proof_steps (Suc d) cur j =
     (cur ! (if odd j then j - 1 else j + 1), if odd j then 1 else 0)
       # proof_steps d (next_level cur) (j div 2)"

text \<open>
  The same levels for the training generator, and the pairing loop of both generators
  with the hash \<open>h\<close> and the boundary operand \<open>b\<close> (what a last entry without a right
  neighbour is paired with) as parameters.
\<close>

fun tr_levels :: "(string \<Rightarrow> int) \<Rightarrow> nat \<Rightarrow> int list \<Rightarrow> int list list" where
  "tr_levels sha256 0 cur = [cur]"
| "tr_levels sha256 (Suc d) cur = cur # tr_levels sha256 d (tr_next_level sha256 cur)"

fun pair_level :: "(int \<Rightarrow> int \<Rightarrow> int) \<Rightarrow> (int \<Rightarrow> int) \<Rightarrow> int list \<Rightarrow> int list" where
  "pair_level h b (left # right # rest) = h left right # pair_level h b rest"
| "pair_level h b [left] = [h left (b left)]"
| "pair_level h b [] = []"

text \<open>Level 0 of the balance generator's tree, as a closed expression.\<close>

definition hashed_padded :: "int list \<Rightarrow> int list" where
  "hashed_padded lvs =
     map poseidon_hash_single lvs
       @ replicate (2 ^ ceillog2 (length lvs) - length lvs) (poseidon_hash_single 0)"

section \<open>The loops of the balance generator\<close>

declare depth_loop.simps [simp del] pad_loop.simps [simp del] build_loop.simps [simp del]
  proof_loop.simps [simp del]

lemma length_next_level: "length (next_level xs) = (length xs + 1) div 2"
  by (induction xs rule: next_level.induct) auto

lemma depth_loop_ceillog2: "depth_loop temp depth = ceillog2 temp + depth"
proof (induction temp depth rule: depth_loop.induct)
  case (1 temp depth)
  show ?case
  proof (cases "temp > 1")
    case True
    with 1 show ?thesis
      by (subst depth_loop.simps, subst ceillog2_rec) simp
  next
    case False
    then show ?thesis
      by (subst depth_loop.simps) simp
  qed
qed

lemma pad_loop_replicate:
  "pad_loop hashes padded =
     hashes @ replicate (padded - length hashes) (poseidon_hash_single 0)"
proof (induction hashes padded rule: pad_loop.induct)
  case (1 hashes padded)
  show ?case
  proof (cases "length hashes < padded")
    case True
    then have "padded - length hashes = Suc (padded - Suc (length hashes))"
      by simp
    with True 1 show ?thesis
      by (subst pad_loop.simps) (simp add: replicate_app_Cons_same)
  next
    case False
    then show ?thesis
      by (subst pad_loop.simps) simp
  qed
qed

lemma build_loop_levels:
  "length cur = 2 ^ d \<Longrightarrow> build_loop (pre @ [cur]) cur = pre @ levels d cur"
proof (induction d arbitrary: pre cur)
  case 0
  then show ?case
    by (subst build_loop.simps) simp
next
  case (Suc d)
  have len: "length (next_level cur) = 2 ^ d"
    using Suc.prems by (simp add: length_next_level)
  have big: "1 < length cur"
    using Suc.prems by (metis one_less_numeral_iff power_gt1 semiring_norm(76))
  have "build_loop (pre @ [cur]) cur
          = build_loop ((pre @ [cur]) @ [next_level cur]) (next_level cur)"
    using big by (subst build_loop.simps) simp
  also have "\<dots> = (pre @ [cur]) @ levels d (next_level cur)"
    by (rule Suc.IH [OF len])
  finally show ?case
    by simp
qed

lemma length_levels: "length (levels d cur) = Suc d"
  by (induction d arbitrary: cur) auto

lemma next_level_nth:
  "even (length xs) \<Longrightarrow> i < length xs \<Longrightarrow>
     next_level xs ! (i div 2) =
       (if odd i then poseidon_hash_pair (xs ! (i - 1)) (xs ! i)
        else poseidon_hash_pair (xs ! i) (xs ! (i + 1)))"
proof (induction xs arbitrary: i rule: next_level.induct)
  case (1 left right rest)
  show ?case
  proof (cases "i < 2")
    case True
    then have "i = 0 \<or> i = 1" by auto
    then show ?thesis by auto
  next
    case False
    then obtain j where j: "i = j + 2"
      by (metis add.commute le_Suc_ex not_less)
    with 1 have "even (length rest)" "j < length rest" by auto
    from 1(1) [OF this] j show ?thesis
      by (auto simp: nth_Cons')
  qed
qed auto

lemma mod_window:
  fixes c :: int
  assumes "- int k \<le> c" "c < int k"
  shows "c mod int k = (if 0 \<le> c then c else c + int k)"
proof (cases "0 \<le> c")
  case True
  with assms show ?thesis by simp
next
  case False
  with assms have "(c + int k) mod int k = c + int k"
    by (intro mod_pos_pos_trivial) auto
  with False show ?thesis by simp
qed

lemma py_getitem_in_range:
  assumes "- int (length xs) \<le> i" "i < int (length xs)"
  shows "py_getitem xs i = Inr (xs ! nat (i mod int (length xs)))"
  using assms by (simp add: py_getitem_def mod_window add.commute)

lemma index_parity:
  fixes c :: int and m :: nat
  assumes "- int (2 * m) \<le> c" "c < int (2 * m)"
  shows "c mod 2 \<noteq> 0 \<longleftrightarrow> odd (nat (c mod int (2 * m)))"
  unfolding mod_window [OF assms] using assms by (simp add: even_nat_iff) presburger

lemma index_left:
  fixes c :: int and m :: nat
  assumes "- int (2 * m) \<le> c" "c < int (2 * m)" "c mod 2 \<noteq> 0"
  shows "- int (2 * m) \<le> c - 1" "c - 1 < int (2 * m)"
    "nat ((c - 1) mod int (2 * m)) = nat (c mod int (2 * m)) - 1"
proof -
  show a: "- int (2 * m) \<le> c - 1" using assms by presburger
  show b: "c - 1 < int (2 * m)" using assms by simp
  have "(c - 1) mod int (2 * m) = c mod int (2 * m) - 1"
    unfolding mod_window [OF a b] mod_window [OF assms(1,2)] using assms(3) by presburger
  then show "nat ((c - 1) mod int (2 * m)) = nat (c mod int (2 * m)) - 1"
    by (simp add: nat_diff_distrib')
qed

lemma index_right:
  fixes c :: int and m :: nat
  assumes "- int (2 * m) \<le> c" "c < int (2 * m)" "c mod 2 = 0"
  shows "- int (2 * m) \<le> c + 1" "c + 1 < int (2 * m)"
    "nat ((c + 1) mod int (2 * m)) = nat (c mod int (2 * m)) + 1"
proof -
  show a: "- int (2 * m) \<le> c + 1" using assms by simp
  show b: "c + 1 < int (2 * m)" using assms by presburger
  have "(c + 1) mod int (2 * m) = c mod int (2 * m) + 1"
    unfolding mod_window [OF a b] mod_window [OF assms(1,2)] using assms(3) by presburger
  moreover have "0 \<le> c mod int (2 * m)"
    unfolding mod_window [OF assms(1,2)] using assms(1) by simp
  ultimately show "nat ((c + 1) mod int (2 * m)) = nat (c mod int (2 * m)) + 1"
    by (simp add: nat_add_distrib)
qed

lemma index_parent:
  fixes c :: int and m :: nat
  assumes "- int (2 * m) \<le> c" "c < int (2 * m)"
  shows "- int m \<le> c div 2" "c div 2 < int m"
    "nat ((c div 2) mod int m) = nat (c mod int (2 * m)) div 2"
proof -
  show a: "- int m \<le> c div 2" using assms by simp
  show b: "c div 2 < int m" using assms by simp
  have "(c div 2) mod int m = (c mod int (2 * m)) div 2"
    unfolding mod_window [OF a b] mod_window [OF assms(1,2)] by simp
  then show "nat ((c div 2) mod int m) = nat (c mod int (2 * m)) div 2"
    by (simp add: nat_div_distrib)
qed

lemma levels_nth_length:
  "length cur = 2 ^ d \<Longrightarrow> k \<le> d \<Longrightarrow> length (levels d cur ! k) = 2 ^ (d - k)"
proof (induction d arbitrary: cur k)
  case 0
  then show ?case by simp
next
  case (Suc d)
  show ?case
  proof (cases k)
    case 0
    with Suc.prems show ?thesis by simp
  next
    case (Suc k')
    have "length (next_level cur) = 2 ^ d"
      using Suc.prems by (simp add: length_next_level)
    from Suc.IH [OF this, of k'] Suc Suc.prems show ?thesis by simp
  qed
qed

lemma levels_nth_Suc:
  "k < d \<Longrightarrow> levels d cur ! Suc k = next_level (levels d cur ! k)"
proof (induction d arbitrary: cur k)
  case 0
  then show ?case by simp
next
  case (Suc d)
  show ?case
  proof (cases k)
    case 0
    then show ?thesis by (cases d) simp_all
  next
    case (Suc k')
    with Suc.prems have "k' < d" by simp
    from Suc.IH [OF this] Suc show ?thesis by simp
  qed
qed

lemma levels_nth_0: "levels d cur ! 0 = cur"
  by (cases d) simp_all

lemma levels_not_Nil: "levels d cur \<noteq> []"
  by (cases d) simp_all

lemma last_levels_Suc: "last (levels (Suc d) cur) = last (levels d (next_level cur))"
  by (simp add: levels_not_Nil)

lemma last_levels_nth: "last (levels d cur) = levels d cur ! d"
  by (simp add: last_conv_nth levels_not_Nil length_levels)

lemma proof_loop_steps:
  assumes "length cur = 2 ^ d" "- int (2 ^ d) \<le> c" "c < int (2 ^ d)"
  shows "proof_loop (pre @ levels d cur) (length pre + d) (length pre) c sibs path =
           Inr (sibs @ map fst (proof_steps d cur (nat (c mod int (2 ^ d)))),
                path @ map snd (proof_steps d cur (nat (c mod int (2 ^ d)))))"
  using assms
proof (induction d arbitrary: pre cur c sibs path)
  case 0
  show ?case
    by (subst proof_loop.simps) simp
next
  case (Suc d)
  define m :: nat where "m = 2 ^ d"
  define j where "j = nat (c mod int (2 * m))"
  have len: "length cur = 2 * m" and lo: "- int (2 * m) \<le> c" and hi: "c < int (2 * m)"
    using Suc.prems by (simp_all add: m_def)
  have lvl: "py_getitem (pre @ levels (Suc d) cur) (int (length pre)) = Inr cur"
    by (simp add: py_getitem_def length_levels)
  have nlen: "length (next_level cur) = 2 ^ d"
    using len by (simp add: length_next_level m_def)
  note par = index_parent [OF lo hi]
  have rec: "proof_loop ((pre @ [cur]) @ levels d (next_level cur)) (length (pre @ [cur]) + d)
               (length (pre @ [cur])) (c div 2) sibs' path' =
             Inr (sibs' @ map fst (proof_steps d (next_level cur) (j div 2)),
                  path' @ map snd (proof_steps d (next_level cur) (j div 2)))"
    for sibs' path'
    using Suc.IH [OF nlen, of "c div 2" "pre @ [cur]" sibs' path'] par
    by (simp add: m_def j_def)
  have "proof_loop (pre @ levels (Suc d) cur) (length pre + Suc d) (length pre) c sibs path =
          Inr (sibs @ map fst (proof_steps (Suc d) cur j),
               path @ map snd (proof_steps (Suc d) cur j))"
  proof (cases "c mod 2 = 0")
    case True
    note r = index_right [OF lo hi True]
    have ev: "even j"
      using index_parity [OF lo hi] True by (simp add: j_def)
    have sib: "py_getitem cur (c + 1) = Inr (cur ! (j + 1))"
      using py_getitem_in_range [of cur "c + 1"] r len by (simp add: j_def)
    have inb: "c + 1 < int (length cur)"
      using r(2) len by simp
    show ?thesis
      apply (subst proof_loop.simps)
      using lvl sib inb rec [of "sibs @ [cur ! (j + 1)]" "path @ [0]"] True ev
      by (simp add: Let_def)
  next
    case False
    note l = index_left [OF lo hi False]
    have od: "odd j"
      using index_parity [OF lo hi] False by (simp add: j_def)
    have bit: "c mod 2 = 1"
      using False by presburger
    have sib: "py_getitem cur (c - 1) = Inr (cur ! (j - 1))"
      using py_getitem_in_range [of cur "c - 1"] l len by (simp add: j_def)
    have inb: "c - 1 < int (length cur)"
      using l(2) len by simp
    show ?thesis
      apply (subst proof_loop.simps)
      using lvl sib inb rec [of "sibs @ [cur ! (j - 1)]" "path @ [1]"] False od bit
      by (simp add: Let_def)
  qed
  then show ?case
    unfolding j_def m_def by simp
qed

lemma length_proof_steps: "length (proof_steps d cur j) = d"
  by (induction d arbitrary: cur j) auto

lemma verify_steps:
  "length cur = 2 ^ d \<Longrightarrow> j < 2 ^ d \<Longrightarrow>
     verify_loop (cur ! j) (proof_steps d cur j) = hd (last (levels d cur))"
proof (induction d arbitrary: cur j)
  case 0
  then show ?case by (cases cur) simp_all
next
  case (Suc d)
  have nlen: "length (next_level cur) = 2 ^ d"
    using Suc.prems by (simp add: length_next_level)
  have j2: "j div 2 < 2 ^ d"
    using Suc.prems by simp
  have ev: "even (length cur)"
    using Suc.prems by simp
  have jl: "j < length cur"
    using Suc.prems by simp
  show ?case
    using Suc.IH [OF nlen j2] next_level_nth [OF ev jl]
    by (auto simp: last_levels_Suc simp del: levels.simps split: if_splits)
qed


lemma length_hashed_padded: "length (hashed_padded lvs) = 2 ^ ceillog2 (length lvs)"
  by (simp add: hashed_padded_def le_two_power_ceillog2)

lemma py_getitem_last: "xs \<noteq> [] \<Longrightarrow> py_getitem xs (- 1) = Inr (last xs)"
  by (cases xs rule: rev_cases) (simp_all add: py_getitem_def nat_add_distrib)

lemma py_getitem_first: "xs \<noteq> [] \<Longrightarrow> py_getitem xs 0 = Inr (hd xs)"
  by (cases xs) (simp_all add: py_getitem_def)

lemma length_last_levels: "length cur = 2 ^ d \<Longrightarrow> length (last (levels d cur)) = 1"
  using levels_nth_length [of cur d d] by (simp add: last_levels_nth)

lemma MerkleTree_built:
  "MerkleTree lvs =
     Inr \<lparr>mt_leaves = lvs, mt_n = length lvs, mt_depth = ceillog2 (length lvs),
          mt_padded_n = 2 ^ ceillog2 (length lvs), mt_leaf_hashes = hashed_padded lvs,
          mt_tree = levels (ceillog2 (length lvs)) (hashed_padded lvs),
          mt_root = hd (last (levels (ceillog2 (length lvs)) (hashed_padded lvs)))\<rparr>"
proof -
  let ?d = "ceillog2 (length lvs)"
  have pad: "pad_loop (map poseidon_hash_single lvs) (2 ^ ?d) = hashed_padded lvs"
    by (simp add: pad_loop_replicate hashed_padded_def)
  have tree: "build_tree (hashed_padded lvs) = levels ?d (hashed_padded lvs)"
    using build_loop_levels [OF length_hashed_padded, where pre = "[]"]
    by (simp add: build_tree_def)
  have top: "last (levels ?d (hashed_padded lvs)) \<noteq> []"
    using length_last_levels [OF length_hashed_padded, of lvs] by auto
  show ?thesis
    by (simp add: MerkleTree_def Let_def depth_loop_ceillog2 pad tree
        py_getitem_last [OF levels_not_Nil] py_getitem_first [OF top])
qed

lemma hashed_padded_nth:
  "i < length lvs \<Longrightarrow> hashed_padded lvs ! i = poseidon_hash_single (lvs ! i)"
  by (simp add: hashed_padded_def nth_append)

lemma get_proof_built:
  assumes "MerkleTree lvs = Inr t" "- int (2 ^ ceillog2 (length lvs)) \<le> index"
    "index < int (length lvs)"
  shows "get_proof t index =
           Inr (map fst (proof_steps (mt_depth t) (mt_leaf_hashes t)
                           (nat (index mod int (mt_padded_n t)))),
                map snd (proof_steps (mt_depth t) (mt_leaf_hashes t)
                           (nat (index mod int (mt_padded_n t)))))"
proof -
  have hi: "index < int (2 ^ ceillog2 (length lvs))"
    using assms(3) le_two_power_ceillog2 [of "length lvs"] by linarith
  show ?thesis
    using proof_loop_steps [OF length_hashed_padded assms(2) hi, of "[]" "[]" "[]"] assms
    by (auto simp: MerkleTree_built get_proof_def)
qed

section \<open>The loops of the training generator\<close>

declare tr_build_loop.simps [simp del] tr_proof_loop.simps [simp del]

lemma size_loop_ceillog2:
  "depth \<le> ceillog2 n \<Longrightarrow> size_loop n (2 ^ depth) depth = Some (2 ^ ceillog2 n, ceillog2 n)"
proof (induction "ceillog2 n - depth" arbitrary: depth)
  case 0
  then have eq: "depth = ceillog2 n" by simp
  have "\<not> 2 ^ ceillog2 n < n"
    using le_two_power_ceillog2 [of n] by simp
  then show ?case
    by (subst size_loop.simps) (simp add: eq)
next
  case (Suc k)
  then have less: "depth < ceillog2 n" by simp
  have "2 ^ depth < n"
  proof (rule ccontr)
    assume "\<not> 2 ^ depth < n"
    then have le: "n \<le> 2 ^ depth" by simp
    have "ceillog2 n \<le> depth"
    proof (cases "n = 0")
      case True
      then show ?thesis by simp
    next
      case False
      then show ?thesis using le by (simp add: ceillog2_le_iff)
    qed
    with less show False by simp
  qed
  moreover have "size_loop n (2 ^ Suc depth) (Suc depth) = Some (2 ^ ceillog2 n, ceillog2 n)"
    using Suc.hyps(1) [of "Suc depth"] Suc.hyps(2) less by simp
  ultimately show ?case
    by (subst size_loop.simps) (simp add: mult.commute)
qed

lemma length_tr_next_level: "length (tr_next_level sha256 xs) = (length xs + 1) div 2"
  by (induction sha256 xs rule: tr_next_level.induct) auto

lemma tr_build_loop_levels:
  "length cur = 2 ^ d \<Longrightarrow>
     tr_build_loop sha256 (pre @ [cur]) cur = pre @ tr_levels sha256 d cur"
proof (induction d arbitrary: pre cur)
  case 0
  then show ?case
    by (subst tr_build_loop.simps) simp
next
  case (Suc d)
  have len: "length (tr_next_level sha256 cur) = 2 ^ d"
    using Suc.prems by (simp add: length_tr_next_level)
  have big: "1 < length cur"
    using Suc.prems by (metis one_less_numeral_iff power_gt1 semiring_norm(76))
  have "tr_build_loop sha256 (pre @ [cur]) cur
          = tr_build_loop sha256 ((pre @ [cur]) @ [tr_next_level sha256 cur])
              (tr_next_level sha256 cur)"
    using big by (subst tr_build_loop.simps) simp
  also have "\<dots> = (pre @ [cur]) @ tr_levels sha256 d (tr_next_level sha256 cur)"
    by (rule Suc.IH [OF len])
  finally show ?case
    by simp
qed

lemma length_tr_levels: "length (tr_levels sha256 d cur) = Suc d"
  by (induction d arbitrary: cur) auto

lemma tr_levels_nth_0: "tr_levels sha256 d cur ! 0 = cur"
  by (cases d) simp_all

lemma tr_levels_nth_length:
  "length cur = 2 ^ d \<Longrightarrow> k \<le> d \<Longrightarrow> length (tr_levels sha256 d cur ! k) = 2 ^ (d - k)"
proof (induction d arbitrary: cur k)
  case 0
  then show ?case by simp
next
  case (Suc d)
  show ?case
  proof (cases k)
    case 0
    with Suc.prems show ?thesis by simp
  next
    case (Suc k')
    have "length (tr_next_level sha256 cur) = 2 ^ d"
      using Suc.prems by (simp add: length_tr_next_level)
    from Suc.IH [OF this, of k'] Suc Suc.prems show ?thesis by simp
  qed
qed

lemma tr_levels_nth_Suc:
  "k < d \<Longrightarrow> tr_levels sha256 d cur ! Suc k = tr_next_level sha256 (tr_levels sha256 d cur ! k)"
proof (induction d arbitrary: cur k)
  case 0
  then show ?case by simp
next
  case (Suc d)
  show ?case
  proof (cases k)
    case 0
    then show ?thesis by (cases d) simp_all
  next
    case (Suc k')
    with Suc.prems have "k' < d" by simp
    from Suc.IH [OF this] Suc show ?thesis by simp
  qed
qed

lemma tr_tree_built:
  "tr_tree sha256 lvs =
     Some (tr_levels sha256 (ceillog2 (length lvs))
             (lvs @ replicate (2 ^ ceillog2 (length lvs) - length lvs) 0),
           ceillog2 (length lvs))"
proof -
  let ?d = "ceillog2 (length lvs)"
  let ?p = "lvs @ replicate (2 ^ ?d - length lvs) 0"
  have sz: "size_loop (length lvs) 1 0 = Some (2 ^ ?d, ?d)"
    using size_loop_ceillog2 [of 0 "length lvs"] by simp
  have "length ?p = 2 ^ ?d"
    by (simp add: le_two_power_ceillog2)
  from tr_build_loop_levels [OF this, where pre = "[]"] sz show ?thesis
    by (simp add: tr_tree_def)
qed

lemma next_level_pair: "next_level xs = pair_level poseidon_hash_pair (\<lambda>left. left) xs"
  by (induction xs rule: next_level.induct) auto

lemma tr_next_level_pair:
  "tr_next_level sha256 xs =
     pair_level (\<lambda>left right. poseidon_hash sha256 [left, right]) (\<lambda>left. 0) xs"
  by (induction sha256 xs rule: tr_next_level.induct) auto

lemma pair_level_even: "even (length xs) \<Longrightarrow> pair_level h b xs = pair_level h b' xs"
  by (induction h b xs rule: pair_level.induct) auto

section \<open>Membership proofs of the balance generator\<close>

text \<open>
  Claim C1 (round-trip proof validity). For every leaf sequence and every index \<open>i\<close>
  below its length, the constructor returns a tree, \<open>get_proof\<close> returns a proof for
  \<open>i\<close>, and \<open>verify_merkle_proof\<close> accepts that proof for the raw leaf \<open>leaves[i]\<close>
  against the root of the tree. The statement holds for every length, so in
  particular for the lengths 1 to 64.
\<close>

theorem roundtrip_proof_validity:
  assumes "i < length lvs"
  shows "\<exists>t siblings path_indices.
           MerkleTree lvs = Inr t \<and>
           get_proof t (int i) = Inr (siblings, path_indices) \<and>
           verify_merkle_proof (lvs ! i) siblings path_indices (mt_root t)"
proof -
  obtain t where t: "MerkleTree lvs = Inr t"
    by (simp add: MerkleTree_built)
  let ?d = "ceillog2 (length lvs)"
  have i2: "i < 2 ^ ?d"
    using assms le_two_power_ceillog2 [of "length lvs"] by linarith
  then have pos: "nat (int i mod int (2 ^ ?d)) = i"
    by (simp add: nat_mod_distrib)
  have lo: "- int (2 ^ ?d) \<le> int i"
    by (rule order_trans [of _ 0]) simp_all
  have "get_proof t (int i) =
          Inr (map fst (proof_steps ?d (hashed_padded lvs) i),
               map snd (proof_steps ?d (hashed_padded lvs) i))"
    using get_proof_built [OF t lo] assms t pos
    by (auto simp: MerkleTree_built)
  moreover have "verify_merkle_proof (lvs ! i)
                   (map fst (proof_steps ?d (hashed_padded lvs) i))
                   (map snd (proof_steps ?d (hashed_padded lvs) i)) (mt_root t)"
    using verify_steps [OF length_hashed_padded i2] t assms
    by (auto simp: verify_merkle_proof_def zip_map_fst_snd hashed_padded_nth MerkleTree_built)
  ultimately show ?thesis
    using t by blast
qed


theorem roundtrip_proof_validity_witness:
  "(2 :: nat) < length [0, 1, 1 :: int] \<and>
   (\<exists>t siblings path_indices.
      MerkleTree [0, 1, 1] = Inr t \<and>
      get_proof t 2 = Inr (siblings, path_indices) \<and>
      verify_merkle_proof ([0, 1, 1] ! 2) siblings path_indices (mt_root t))"
  using roundtrip_proof_validity [of 2 "[0, 1, 1]"] by simp

text \<open>
  Claim C6 (index check of \<open>get_proof\<close>). On the tree built from any leaf sequence of
  length \<open>n\<close>, a request for an index \<open>index >= n\<close> raises \<open>ValueError\<close>, the
  exception this code uses for an index out of range, and a request for an index with
  \<open>0 <= index < n\<close> returns a proof, with one sibling and one direction bit per level.
\<close>

theorem get_proof_index_check:
  "\<exists>t. MerkleTree lvs = Inr t \<and>
       (\<forall>index. int (length lvs) \<le> index \<longrightarrow> get_proof t index = Inl ValueError) \<and>
       (\<forall>index. 0 \<le> index \<and> index < int (length lvs) \<longrightarrow>
          (\<exists>siblings path_indices.
             get_proof t index = Inr (siblings, path_indices) \<and>
             length siblings = mt_depth t \<and> length path_indices = mt_depth t))"
proof -
  obtain t where t: "MerkleTree lvs = Inr t"
    by (simp add: MerkleTree_built)
  have n: "mt_n t = length lvs"
    using t by (auto simp: MerkleTree_built)
  have "get_proof t index = Inl ValueError" if "int (length lvs) \<le> index" for index
    using that n by (simp add: get_proof_def)
  moreover have "\<exists>siblings path_indices.
                   get_proof t index = Inr (siblings, path_indices) \<and>
                   length siblings = mt_depth t \<and> length path_indices = mt_depth t"
    if "0 \<le> index \<and> index < int (length lvs)" for index
  proof -
    have "- int (2 ^ ceillog2 (length lvs)) \<le> index"
      using that by - (rule order_trans [of _ 0], simp_all)
    from get_proof_built [OF t this] that show ?thesis
      by (simp add: length_proof_steps)
  qed
  ultimately show ?thesis
    using t by blast
qed

theorem get_proof_index_check_witness:
  "\<exists>t. MerkleTree [0, 1, 1] = Inr t \<and> get_proof t 3 = Inl ValueError \<and>
       (\<exists>siblings path_indices. get_proof t 2 = Inr (siblings, path_indices))"
proof -
  obtain t where t: "MerkleTree [0, 1, 1] = Inr t"
    and hi: "\<forall>index. int (length [0, 1, 1 :: int]) \<le> index \<longrightarrow>
               get_proof t index = Inl ValueError"
    and lo: "\<forall>index. 0 \<le> index \<and> index < int (length [0, 1, 1 :: int]) \<longrightarrow>
               (\<exists>siblings path_indices.
                  get_proof t index = Inr (siblings, path_indices) \<and>
                  length siblings = mt_depth t \<and> length path_indices = mt_depth t)"
    using get_proof_index_check [of "[0, 1, 1]"] by blast
  have "get_proof t 3 = Inl ValueError"
    using hi [rule_format, of 3] by simp
  moreover have "\<exists>siblings path_indices. get_proof t 2 = Inr (siblings, path_indices)"
    using lo [rule_format, of 2] by auto
  ultimately show ?thesis
    using t by blast
qed

text \<open>
  Claim C10 (negative indices are not rejected). The check of \<open>get_proof\<close> is
  one-sided: for every index with \<open>-n <= index < 0\<close> the call raises nothing and returns
  a proof. The proof is read through Python's negative subscripts: it is a valid
  membership proof of \<open>leaf_hashes[index]\<close>, the entry of the padded level 0 counted
  from its end.
\<close>

theorem get_proof_negative_index:
  assumes "- int (length lvs) \<le> index" "index < 0"
  shows "\<exists>t siblings path_indices h.
           MerkleTree lvs = Inr t \<and>
           get_proof t index = Inr (siblings, path_indices) \<and>
           length siblings = mt_depth t \<and> length path_indices = mt_depth t \<and>
           py_getitem (mt_leaf_hashes t) index = Inr h \<and>
           verify_loop h (zip siblings path_indices) = mt_root t"
proof -
  obtain t where t: "MerkleTree lvs = Inr t"
    by (simp add: MerkleTree_built)
  let ?d = "ceillog2 (length lvs)"
  let ?j = "nat (index mod int (2 ^ ?d))"
  have lo: "- int (2 ^ ?d) \<le> index"
    using assms(1) le_two_power_ceillog2 [of "length lvs"] by linarith
  have hi: "index < int (length lvs)"
    using assms(2) by linarith
  have hi2: "index < int (2 ^ ?d)"
    using assms(2) by - (rule less_le_trans [of _ 0], simp_all)
  have j: "?j < 2 ^ ?d"
    using lo hi2 by (simp add: mod_window nat_less_iff)
  have "py_getitem (hashed_padded lvs) index = Inr (hashed_padded lvs ! ?j)"
    using py_getitem_in_range [of "hashed_padded lvs" index] lo hi2
    by (simp add: length_hashed_padded)
  moreover have "verify_loop (hashed_padded lvs ! ?j)
                   (proof_steps ?d (hashed_padded lvs) ?j) =
                 hd (last (levels ?d (hashed_padded lvs)))"
    by (rule verify_steps [OF length_hashed_padded j])
  ultimately show ?thesis
    using get_proof_built [OF t lo hi] t
    by (auto simp: MerkleTree_built zip_map_fst_snd length_proof_steps)
qed

theorem get_proof_negative_index_witness:
  "- int (length [0, 1, 1 :: int]) \<le> - 3 \<and> (- 3 :: int) < 0 \<and>
   (\<exists>t siblings path_indices h.
      MerkleTree [0, 1, 1] = Inr t \<and>
      get_proof t (- 3) = Inr (siblings, path_indices) \<and>
      py_getitem (mt_leaf_hashes t) (- 3) = Inr h \<and>
      verify_loop h (zip siblings path_indices) = mt_root t)"
proof -
  have a: "- int (length [0, 1, 1 :: int]) \<le> - 3"
    by simp
  have b: "(- 3 :: int) < 0"
    by simp
  from get_proof_negative_index [OF a b] a b show ?thesis
    by blast
qed

section \<open>Tree construction\<close>

text \<open>
  Claim C2 (padding of level 0), as stated, at the training generator. The claim says
  that tree construction hashes every raw leaf and fills the padding slots with the hash
  of 0. \<open>build_merkle_tree\<close> does neither: with the leaves \<open>[2**251, 2, 3]\<close> its level 0
  is \<open>[2**251, 2, 3, 0]\<close>, and no hash value can equal the first entry, since
  \<open>poseidon_hash\<close> reduces modulo \<open>2**251\<close>. So level 0 is not the hashed and
  hash-padded sequence, whatever SHA-256 returns.
\<close>

theorem level0_padding_counterexample:
  "\<forall>sha256. map_option (\<lambda>(tree, depth). tree ! 0) (tr_tree sha256 [2 ^ 251, 2, 3]) \<noteq>
     Some (map (\<lambda>v. poseidon_hash sha256 [v]) [2 ^ 251, 2, 3] @ [poseidon_hash sha256 [0]])"
proof
  fix sha256 :: "string \<Rightarrow> int"
  have "poseidon_hash sha256 [2 ^ 251] < 2 ^ 251"
    by (simp add: poseidon_hash_def)
  then have "poseidon_hash sha256 [2 ^ 251] \<noteq> 2 ^ 251"
    by simp
  then show "map_option (\<lambda>(tree, depth). tree ! 0) (tr_tree sha256 [2 ^ 251, 2, 3]) \<noteq>
     Some (map (\<lambda>v. poseidon_hash sha256 [v]) [2 ^ 251, 2, 3] @ [poseidon_hash sha256 [0]])"
    by (simp add: tr_tree_built tr_levels_nth_0)
qed

text \<open>
  Claim C2, amended. For every non-empty leaf sequence of length \<open>n\<close>, level 0 of the
  tree has length \<open>2 ^ ceil(log2 n)\<close> in both generators. In the balance generator it
  is the leaves hashed with \<open>poseidon_hash_single\<close>, followed by copies of
  \<open>poseidon_hash_single(0)\<close>. In the training generator it is the leaves as given,
  followed by copies of the raw value 0.
\<close>

theorem level0_padding:
  assumes "lvs \<noteq> []"
  shows "(\<exists>t. MerkleTree lvs = Inr t \<and>
            mt_tree t ! 0 =
              map poseidon_hash_single lvs
                @ replicate (2 ^ nat \<lceil>log 2 (real (length lvs))\<rceil> - length lvs)
                    (poseidon_hash_single 0) \<and>
            length (mt_tree t ! 0) = 2 ^ nat \<lceil>log 2 (real (length lvs))\<rceil>) \<and>
         (\<exists>tree depth. tr_tree sha256 lvs = Some (tree, depth) \<and>
            tree ! 0 = lvs @ replicate (2 ^ nat \<lceil>log 2 (real (length lvs))\<rceil> - length lvs) 0 \<and>
            length (tree ! 0) = 2 ^ nat \<lceil>log 2 (real (length lvs))\<rceil>)"
proof -
  let ?d = "ceillog2 (length lvs)"
  have d: "nat \<lceil>log 2 (real (length lvs))\<rceil> = ?d"
    using assms by (simp add: ceillog2_def)
  note l0 = levels_nth_0 and t0 = tr_levels_nth_0
  have "mt_tree t ! 0 = hashed_padded lvs \<and> length (mt_tree t ! 0) = 2 ^ ?d"
    if "MerkleTree lvs = Inr t" for t
    using that by (auto simp: MerkleTree_built l0 length_hashed_padded)
  moreover have "\<exists>t. MerkleTree lvs = Inr t"
    by (simp add: MerkleTree_built)
  ultimately have "\<exists>t. MerkleTree lvs = Inr t \<and> mt_tree t ! 0 = hashed_padded lvs \<and>
                     length (mt_tree t ! 0) = 2 ^ ?d"
    by blast
  moreover have "\<exists>tree depth. tr_tree sha256 lvs = Some (tree, depth) \<and>
                   tree ! 0 = lvs @ replicate (2 ^ ?d - length lvs) 0 \<and>
                   length (tree ! 0) = 2 ^ ?d"
    by (simp add: tr_tree_built t0 le_two_power_ceillog2)
  ultimately show ?thesis
    unfolding d hashed_padded_def by blast
qed

theorem level0_padding_witness:
  "[0, 1, 1 :: int] \<noteq> [] \<and>
   (\<exists>t. MerkleTree [0, 1, 1] = Inr t \<and>
      mt_tree t ! 0 =
        map poseidon_hash_single [0, 1, 1]
          @ replicate (2 ^ nat \<lceil>log 2 (real (length [0, 1, 1 :: int]))\<rceil> - length [0, 1, 1 :: int])
              (poseidon_hash_single 0)) \<and>
   (\<exists>tree depth. tr_tree (\<lambda>s. int (length s)) [0, 1, 1] = Some (tree, depth) \<and>
      tree ! 0 =
        [0, 1, 1] @ replicate (2 ^ nat \<lceil>log 2 (real (length [0, 1, 1 :: int]))\<rceil> - length [0, 1, 1 :: int]) 0)"
proof -
  have ne: "[0, 1, 1 :: int] \<noteq> []"
    by simp
  from level0_padding [OF ne, of "\<lambda>s. int (length s)"] ne show ?thesis
    by blast
qed

text \<open>
  Claim C5 (empty input), as stated. The claim says that building a tree from no leaves
  fails. The constructor of the balance generator has no such check: from \<open>[]\<close> it
  returns a tree of depth 0 whose single level holds the hash of 0.
\<close>

theorem empty_input_counterexample:
  "MerkleTree [] =
     Inr \<lparr>mt_leaves = [], mt_n = 0, mt_depth = 0, mt_padded_n = 1,
          mt_leaf_hashes = [987654321], mt_tree = [[987654321]], mt_root = 987654321\<rparr>"
  by (simp add: MerkleTree_built hashed_padded_def poseidon_hash_single_def poseidon_mock_def
      py_sum_def PRIME_def)

text \<open>
  Claim C5, amended. Building from an empty leaf sequence raises nothing in either
  generator. The balance generator returns a tree with \<open>n = 0\<close>, depth 0, padded size 1,
  the single level \<open>[poseidon_hash_single(0)]\<close> and that hash as root. The training
  generator builds the single level \<open>[0]\<close> and returns the root 0 with empty lists of
  proofs.
\<close>

theorem empty_input_builds:
  "(\<exists>t. MerkleTree [] = Inr t \<and> mt_n t = 0 \<and> mt_depth t = 0 \<and> mt_padded_n t = 1 \<and>
        mt_tree t = [[poseidon_hash_single 0]] \<and> mt_root t = poseidon_hash_single 0) \<and>
   tr_tree sha256 [] = Some ([[0]], 0) \<and>
   build_merkle_tree sha256 [] = Some (Inr (0, [], []))"
  by (simp add: MerkleTree_built hashed_padded_def build_merkle_tree_def tr_tree_built
      py_getitem_def tr_all_proofs.simps)

text \<open>
  Claim C9 (the boundary branches are never taken). In both generators the built tree
  has \<open>depth + 1\<close> levels, the last of length 1. Every level \<open>k\<close> below the root has even
  length, level \<open>k + 1\<close> has half that length, and it is the result of the pairing loop
  on level \<open>k\<close>. On each of these levels the loop returns the same list for every
  boundary operand \<open>b\<close>: the branch that pairs a last entry without right neighbour
  (with itself in one generator, with 0 in the other) does not contribute to any
  built tree. This holds for every leaf count, so for every \<open>n >= 1\<close>.
\<close>

theorem boundary_branch_unreachable:
  "(\<exists>t. MerkleTree lvs = Inr t \<and>
      length (mt_tree t) = mt_depth t + 1 \<and>
      length (mt_tree t ! mt_depth t) = 1 \<and>
      (\<forall>k<mt_depth t.
         even (length (mt_tree t ! k)) \<and>
         length (mt_tree t ! Suc k) = length (mt_tree t ! k) div 2 \<and>
         mt_tree t ! Suc k = next_level (mt_tree t ! k) \<and>
         (\<forall>b. next_level (mt_tree t ! k) = pair_level poseidon_hash_pair b (mt_tree t ! k)))) \<and>
   (\<exists>tree depth. tr_tree sha256 lvs = Some (tree, depth) \<and>
      length tree = depth + 1 \<and>
      length (tree ! depth) = 1 \<and>
      (\<forall>k<depth.
         even (length (tree ! k)) \<and>
         length (tree ! Suc k) = length (tree ! k) div 2 \<and>
         tree ! Suc k = tr_next_level sha256 (tree ! k) \<and>
         (\<forall>b. tr_next_level sha256 (tree ! k) =
               pair_level (\<lambda>left right. poseidon_hash sha256 [left, right]) b (tree ! k))))"
proof -
  let ?d = "ceillog2 (length lvs)"
  let ?H = "hashed_padded lvs"
  let ?P = "lvs @ replicate (2 ^ ?d - length lvs) 0"
  have lenH: "length ?H = 2 ^ ?d"
    by (rule length_hashed_padded)
  have lenP: "length ?P = 2 ^ ?d"
    by (simp add: le_two_power_ceillog2)
  have pow: "even ((2::nat) ^ (?d - k)) \<and> (2::nat) ^ (?d - Suc k) = 2 ^ (?d - k) div 2"
    if "k < ?d" for k
  proof -
    from that obtain e where e: "?d - k = Suc e"
      by (metis Suc_diff_Suc)
    then have "?d - Suc k = e"
      by simp
    with e show ?thesis
      by simp
  qed
  have bal: "even (length (levels ?d ?H ! k)) \<and>
             length (levels ?d ?H ! Suc k) = length (levels ?d ?H ! k) div 2 \<and>
             levels ?d ?H ! Suc k = next_level (levels ?d ?H ! k) \<and>
             (\<forall>b. next_level (levels ?d ?H ! k) =
                   pair_level poseidon_hash_pair b (levels ?d ?H ! k))"
    if k: "k < ?d" for k
  proof -
    have a: "length (levels ?d ?H ! k) = 2 ^ (?d - k)"
      using levels_nth_length [OF lenH, of k] k by simp
    have b: "length (levels ?d ?H ! Suc k) = 2 ^ (?d - Suc k)"
      using levels_nth_length [OF lenH, of "Suc k"] k by simp
    have ev: "even (length (levels ?d ?H ! k))"
      using a pow [OF k] by simp
    have "next_level (levels ?d ?H ! k) = pair_level poseidon_hash_pair b (levels ?d ?H ! k)"
      for b
      using pair_level_even [OF ev, of poseidon_hash_pair "\<lambda>left. left" b]
      by (simp add: next_level_pair)
    with a b ev pow [OF k] levels_nth_Suc [OF k] show ?thesis
      by simp
  qed
  have tr: "even (length (tr_levels sha256 ?d ?P ! k)) \<and>
            length (tr_levels sha256 ?d ?P ! Suc k) = length (tr_levels sha256 ?d ?P ! k) div 2 \<and>
            tr_levels sha256 ?d ?P ! Suc k = tr_next_level sha256 (tr_levels sha256 ?d ?P ! k) \<and>
            (\<forall>b. tr_next_level sha256 (tr_levels sha256 ?d ?P ! k) =
                  pair_level (\<lambda>left right. poseidon_hash sha256 [left, right]) b
                    (tr_levels sha256 ?d ?P ! k))"
    if k: "k < ?d" for k
  proof -
    have a: "length (tr_levels sha256 ?d ?P ! k) = 2 ^ (?d - k)"
      using tr_levels_nth_length [OF lenP, of k] k by simp
    have b: "length (tr_levels sha256 ?d ?P ! Suc k) = 2 ^ (?d - Suc k)"
      using tr_levels_nth_length [OF lenP, of "Suc k"] k by simp
    have ev: "even (length (tr_levels sha256 ?d ?P ! k))"
      using a pow [OF k] by simp
    have "tr_next_level sha256 (tr_levels sha256 ?d ?P ! k) =
            pair_level (\<lambda>left right. poseidon_hash sha256 [left, right]) b
              (tr_levels sha256 ?d ?P ! k)"
      for b
      using pair_level_even [OF ev, of "\<lambda>left right. poseidon_hash sha256 [left, right]"
          "\<lambda>left. 0" b]
      by (simp add: tr_next_level_pair)
    with a b ev pow [OF k] tr_levels_nth_Suc [OF k] show ?thesis
      by simp
  qed
  have top: "length (levels ?d ?H ! ?d) = 1"
    using levels_nth_length [OF lenH, of ?d] by simp
  have trtop: "length (tr_levels sha256 ?d ?P ! ?d) = 1"
    using tr_levels_nth_length [OF lenP, of ?d] by simp
  obtain t where t: "MerkleTree lvs = Inr t" and tree_t: "mt_tree t = levels ?d ?H"
    and depth_t: "mt_depth t = ?d"
    by (simp add: MerkleTree_built)
  have B: "\<forall>k<?d.
         even (length (levels ?d ?H ! k)) \<and>
         length (levels ?d ?H ! Suc k) = length (levels ?d ?H ! k) div 2 \<and>
         levels ?d ?H ! Suc k = next_level (levels ?d ?H ! k) \<and>
         (\<forall>b. next_level (levels ?d ?H ! k) = pair_level poseidon_hash_pair b (levels ?d ?H ! k))"
    using bal by blast
  have L: "length (levels ?d ?H) = ?d + 1"
    by (simp add: length_levels)
  have "MerkleTree lvs = Inr t \<and>
      length (mt_tree t) = mt_depth t + 1 \<and>
      length (mt_tree t ! mt_depth t) = 1 \<and>
      (\<forall>k<mt_depth t.
         even (length (mt_tree t ! k)) \<and>
         length (mt_tree t ! Suc k) = length (mt_tree t ! k) div 2 \<and>
         mt_tree t ! Suc k = next_level (mt_tree t ! k) \<and>
         (\<forall>b. next_level (mt_tree t ! k) = pair_level poseidon_hash_pair b (mt_tree t ! k)))"
    unfolding tree_t depth_t using t B L top by blast
  then have balance: "\<exists>t. MerkleTree lvs = Inr t \<and>
      length (mt_tree t) = mt_depth t + 1 \<and>
      length (mt_tree t ! mt_depth t) = 1 \<and>
      (\<forall>k<mt_depth t.
         even (length (mt_tree t ! k)) \<and>
         length (mt_tree t ! Suc k) = length (mt_tree t ! k) div 2 \<and>
         mt_tree t ! Suc k = next_level (mt_tree t ! k) \<and>
         (\<forall>b. next_level (mt_tree t ! k) = pair_level poseidon_hash_pair b (mt_tree t ! k)))"
    by (rule exI)
  have T: "\<forall>k<?d.
         even (length (tr_levels sha256 ?d ?P ! k)) \<and>
         length (tr_levels sha256 ?d ?P ! Suc k) = length (tr_levels sha256 ?d ?P ! k) div 2 \<and>
         tr_levels sha256 ?d ?P ! Suc k = tr_next_level sha256 (tr_levels sha256 ?d ?P ! k) \<and>
         (\<forall>b. tr_next_level sha256 (tr_levels sha256 ?d ?P ! k) =
               pair_level (\<lambda>left right. poseidon_hash sha256 [left, right]) b
                 (tr_levels sha256 ?d ?P ! k))"
    using tr by blast
  have TL: "length (tr_levels sha256 ?d ?P) = ?d + 1"
    by (simp add: length_tr_levels)
  have "tr_tree sha256 lvs = Some (tr_levels sha256 ?d ?P, ?d)"
    by (rule tr_tree_built)
  with T TL trtop have training: "\<exists>tree depth. tr_tree sha256 lvs = Some (tree, depth) \<and>
      length tree = depth + 1 \<and>
      length (tree ! depth) = 1 \<and>
      (\<forall>k<depth.
         even (length (tree ! k)) \<and>
         length (tree ! Suc k) = length (tree ! k) div 2 \<and>
         tree ! Suc k = tr_next_level sha256 (tree ! k) \<and>
         (\<forall>b. tr_next_level sha256 (tree ! k) =
               pair_level (\<lambda>left right. poseidon_hash sha256 [left, right]) b (tree ! k)))"
    by blast
  from balance training show ?thesis
    by (rule conjI)
qed

theorem boundary_branch_unreachable_witness:
  "(\<exists>t. MerkleTree [0, 1, 1] = Inr t \<and> 0 < mt_depth t \<and>
      even (length (mt_tree t ! 0)) \<and>
      length (mt_tree t ! Suc 0) = length (mt_tree t ! 0) div 2 \<and>
      next_level (mt_tree t ! 0) = pair_level poseidon_hash_pair (\<lambda>left. 0) (mt_tree t ! 0)) \<and>
   (\<exists>tree depth. tr_tree (\<lambda>s. int (length s)) [0, 1, 1] = Some (tree, depth) \<and> 0 < depth \<and>
      even (length (tree ! 0)) \<and>
      length (tree ! Suc 0) = length (tree ! 0) div 2 \<and>
      tr_next_level (\<lambda>s. int (length s)) (tree ! 0) =
        pair_level (\<lambda>left right. poseidon_hash (\<lambda>s. int (length s)) [left, right])
          (\<lambda>left. left) (tree ! 0))"
proof -
  let ?sha = "\<lambda>s :: string. int (length s)"
  have c: "ceillog2 (length [0, 1, 1 :: int]) = 2"
    by (rule ceillog2_eqI) simp_all
  from boundary_branch_unreachable [of "[0, 1, 1]" ?sha]
  obtain t tree depth where t: "MerkleTree [0, 1, 1] = Inr t"
    and bal: "\<forall>k<mt_depth t.
         even (length (mt_tree t ! k)) \<and>
         length (mt_tree t ! Suc k) = length (mt_tree t ! k) div 2 \<and>
         mt_tree t ! Suc k = next_level (mt_tree t ! k) \<and>
         (\<forall>b. next_level (mt_tree t ! k) = pair_level poseidon_hash_pair b (mt_tree t ! k))"
    and tree: "tr_tree ?sha [0, 1, 1] = Some (tree, depth)"
    and tr: "\<forall>k<depth.
         even (length (tree ! k)) \<and>
         length (tree ! Suc k) = length (tree ! k) div 2 \<and>
         tree ! Suc k = tr_next_level ?sha (tree ! k) \<and>
         (\<forall>b. tr_next_level ?sha (tree ! k) =
               pair_level (\<lambda>left right. poseidon_hash ?sha [left, right]) b (tree ! k))"
    by blast
  have d1: "0 < mt_depth t"
    using t c unfolding MerkleTree_built by auto
  have d2: "0 < depth"
    using tree c unfolding tr_tree_built by auto
  from bal [rule_format, OF d1] tr [rule_format, OF d2] t tree d1 d2 show ?thesis
    by blast
qed

section \<open>Fixed-point codec\<close>

declare str_nat.simps [simp del]










section \<open>Gradient pipeline\<close>

lemma foldl_plus_sum_list: "foldl (+) a xs = a + sum_list xs" for a :: "'a::monoid_add"
  by (induction xs arbitrary: a) (simp_all add: add.assoc)

lemma py_sum_sum_list: "py_sum xs = sum_list xs"
  by (simp add: py_sum_def foldl_plus_sum_list)

lemma sum_squares_nonneg: "0 \<le> sum_list (map (\<lambda>v. v * v) (vector :: real list))"
  by (induction vector) simp_all

lemma compute_l2_norm_sqrt: "compute_l2_norm vector = sqrt (sum_list (map (\<lambda>v. v * v) vector))"
  by (simp add: compute_l2_norm_def py_sum_sum_list powr_half_sqrt sum_squares_nonneg)

lemma compute_l2_norm_nonneg: "0 \<le> compute_l2_norm vector"
  by (simp add: compute_l2_norm_sqrt sum_squares_nonneg)







lemma dot_zip:
  "sum_list (map (\<lambda>(w, x). w * x) (zip ws fs)) =
     (\<Sum>k<min (length ws) (length fs). ws ! k * fs ! k)" for ws fs :: "real list"
proof -
  have "sum_list (map (\<lambda>(w, x). w * x) (zip ws fs)) =
          (\<Sum>k = 0..<length (zip ws fs). map (\<lambda>(w, x). w * x) (zip ws fs) ! k)"
    by (simp add: sum_list_sum_nth)
  also have "\<dots> = (\<Sum>k = 0..<min (length ws) (length fs). ws ! k * fs ! k)"
    by (rule sum.cong) simp_all
  finally show ?thesis
    by (simp add: atLeast0LessThan)
qed

text \<open>
  Claim C8 (dimension mismatch), as stated. The claim says that \<open>gradient\<close> fails when
  the weights and the features differ in length. \<open>compute_gradient\<close> compares no
  lengths: with one weight \<open>[1]\<close>, two features \<open>[1, 2]\<close> and label 0, \<open>zip\<close> drops the
  second feature from the prediction, which is 1, and the call returns \<open>[1, 2]\<close>.
\<close>

theorem gradient_dimension_counterexample:
  "compute_gradient [1] [1, 2] 0 = [1, 2]"
  by (simp add: compute_gradient_def py_sum_def)

text \<open>
  Claim C8, amended. \<open>compute_gradient\<close> never fails. Its result has the length of
  the features and \<open>result[i] = -(label - p) * features[i]\<close>, where the prediction \<open>p\<close>
  is the dot product over the first \<open>min(len(weights), len(features))\<close> coordinates;
  when the lengths match, \<open>p\<close> is \<open>dot(weights, features)\<close>.
\<close>

theorem gradient_formula:
  "length (compute_gradient weights features label) = length features \<and>
   (\<forall>i<length features.
      compute_gradient weights features label ! i =
        - (real_of_int label
            - (\<Sum>k<min (length weights) (length features). weights ! k * features ! k))
          * features ! i)"
  by (simp add: compute_gradient_def py_sum_sum_list dot_zip algebra_simps)

theorem gradient_formula_witness:
  "length (compute_gradient [0, 0] [1, 1] 1) = length [1, 1 :: real] \<and>
   (0 :: nat) < length [1, 1 :: real] \<and>
   compute_gradient [0, 0] [1, 1] 1 ! 0 = - 1"
proof -
  have "(\<Sum>k<min (length [0, 0 :: real]) (length [1, 1 :: real]). [0, 0 :: real] ! k * [1, 1] ! k) = 0"
    by simp
  with gradient_formula [of "[0, 0]" "[1, 1]" 1] show ?thesis
    by simp
qed

end
